theory Spec2Isabelle
  imports Complex_Main
begin

section \<open>Numbers, arrays and errors\<close>

text \<open>
  The notebooks compute with numpy arrays of floating-point numbers. Throughout, a finite
  floating-point number is modelled by the real number it stands for and arithmetic is
  exact; the not-a-number value \<^verbatim>\<open>np.nan\<close>, which marks a missing rating, is \<open>None\<close>.
  An exception of the Python code is a value \<open>Inl e\<close>.
\<close>

type_synonym float = "real option"

datatype error = KeyError | IndexError | ValueError | ZeroDivisionError | LinAlgError

text \<open>
  \<^verbatim>\<open>true - pred\<close> as the notebook calls the metric, \<^verbatim>\<open>rmse(test['rating'], arr_pred)\<close>:
  \<^verbatim>\<open>true\<close> is a column of the held-out frame and \<^verbatim>\<open>pred\<close> a list. The difference
  is taken position by position and has one entry per entry of \<^verbatim>\<open>true\<close>. A list of
  length one is broadcast over \<^verbatim>\<open>true\<close>; any other difference of the lengths raises
  \<^verbatim>\<open>ValueError\<close>, also when it is \<^verbatim>\<open>true\<close> that has length one.
\<close>

definition np_sub :: "real list \<Rightarrow> real list \<Rightarrow> error + real list" where
  "np_sub a b =
     (if length a = length b then Inr (map (\<lambda>(x, y). x - y) (zip a b))
      else if length b = 1 then Inr (map (\<lambda>x. x - hd b) a)
      else Inl ValueError)"

section \<open>The error metric\<close>

text \<open>
  The first definition of the notebook:
  \<^verbatim>\<open>
  def rmse(true, pred):
      x = true - pred
      return sum([xi*xi for xi in x])/len(x)
  \<close>
  \<^verbatim>\<open>sum\<close> of the empty list is the integer 0, and dividing it by the integer 0 raises.
\<close>

definition rmse :: "real list \<Rightarrow> real list \<Rightarrow> error + real" where
  "rmse true pred =
     (case np_sub true pred of
        Inl e \<Rightarrow> Inl e
      | Inr x \<Rightarrow>
          if length x = 0 then Inl ZeroDivisionError
          else Inr (sum_list (map (\<lambda>xi. xi * xi) x) / real (length x)))"

text \<open>
  The second definition, which replaces the first one before the metric is ever called:
  \<^verbatim>\<open>
  def rmse(true, arr_pred):
      return sum([xi*xi for xi in true - arr_pred])/len(true)
  \<close>
  When \<^verbatim>\<open>true\<close> is empty the difference is empty as well, whatever was broadcast, so
  the division is again that of the integer 0 by the integer 0.
\<close>

definition rmse2 :: "real list \<Rightarrow> real list \<Rightarrow> error + real" where
  "rmse2 true arr_pred =
     (case np_sub true arr_pred of
        Inl e \<Rightarrow> Inl e
      | Inr x \<Rightarrow>
          if length true = 0 then Inl ZeroDivisionError
          else Inr (sum_list (map (\<lambda>xi. xi * xi) x) / real (length true)))"

text \<open>The mean squared error in the words of the specification.\<close>

definition mean_squared_error :: "real list \<Rightarrow> real list \<Rightarrow> real" where
  "mean_squared_error true pred =
     (1 / real (length true)) * (\<Sum>i<length true. (true ! i - pred ! i)\<^sup>2)"

section \<open>Two-dimensional arrays\<close>

text \<open>
  A two-dimensional numpy array is its shape together with its cells. Only the cells
  \<open>cell A i j\<close> with \<open>i < nrows A\<close> and \<open>j < ncols A\<close> belong to the array; every
  operation below that numpy checks for shape does that check here.
\<close>

record 'a ndarray =
  nrows :: nat
  ncols :: nat
  cell :: "nat \<Rightarrow> nat \<Rightarrow> 'a"

text \<open>
  Elementwise operations broadcast: two extents fit when they are equal or one of them
  is one, and the operand of extent one is repeated.
\<close>

definition broadcast_dim :: "nat \<Rightarrow> nat \<Rightarrow> nat option" where
  "broadcast_dim a b =
     (if a = b then Some a else if a = 1 then Some b else if b = 1 then Some a else None)"

definition np_binop :: "('a \<Rightarrow> 'b \<Rightarrow> 'c) \<Rightarrow> 'a ndarray \<Rightarrow> 'b ndarray \<Rightarrow> error + 'c ndarray" where
  "np_binop f A B =
     (case broadcast_dim (nrows A) (nrows B) of
        None \<Rightarrow> Inl ValueError
      | Some r \<Rightarrow>
          (case broadcast_dim (ncols A) (ncols B) of
             None \<Rightarrow> Inl ValueError
           | Some c \<Rightarrow>
               Inr \<lparr>nrows = r, ncols = c,
                    cell = \<lambda>i j. f (cell A (if nrows A = 1 then 0 else i) (if ncols A = 1 then 0 else j))
                                   (cell B (if nrows B = 1 then 0 else i) (if ncols B = 1 then 0 else j))\<rparr>))"

text \<open>Subtraction and addition of floats: not-a-number absorbs.\<close>

definition fsub :: "float \<Rightarrow> float \<Rightarrow> float" where
  "fsub a b = (case a of None \<Rightarrow> None | Some x \<Rightarrow> (case b of None \<Rightarrow> None | Some y \<Rightarrow> Some (x - y)))"

definition add_float :: "real \<Rightarrow> float \<Rightarrow> float" where
  "add_float p b = (case b of None \<Rightarrow> None | Some y \<Rightarrow> Some (p + y))"

text \<open>
  The stop position of the slice \<^verbatim>\<open>0:k\<close> on an axis of extent \<open>len\<close>: a stop beyond the
  end is cut to the end, a negative stop counts from the end. Slicing never raises.
\<close>

definition slice_stop :: "nat \<Rightarrow> int \<Rightarrow> nat" where
  "slice_stop len k = (if 0 \<le> k then min (nat k) len else nat (int len + k))"

text \<open>\<^verbatim>\<open>A[:, 0:k]\<close> and \<^verbatim>\<open>A[0:k, :]\<close>; \<^verbatim>\<open>A[0:k, 0:k]\<close> is both.\<close>

definition cols_upto :: "'a ndarray \<Rightarrow> int \<Rightarrow> 'a ndarray" where
  "cols_upto A k = A\<lparr>ncols := slice_stop (ncols A) k\<rparr>"

definition rows_upto :: "'a ndarray \<Rightarrow> int \<Rightarrow> 'a ndarray" where
  "rows_upto A k = A\<lparr>nrows := slice_stop (nrows A) k\<rparr>"

definition np_diag :: "real list \<Rightarrow> real ndarray" where
  "np_diag s = \<lparr>nrows = length s, ncols = length s, cell = \<lambda>i j. if i = j then s ! i else 0\<rparr>"

text \<open>\<^verbatim>\<open>np.dot\<close> of two matrices raises unless the inner extents agree.\<close>

definition np_dot :: "real ndarray \<Rightarrow> real ndarray \<Rightarrow> error + real ndarray" where
  "np_dot A B =
     (if ncols A = nrows B
      then Inr \<lparr>nrows = nrows A, ncols = ncols B,
                cell = \<lambda>i j. \<Sum>l<ncols A. cell A i l * cell B l j\<rparr>
      else Inl ValueError)"

section \<open>Imputation, centring and the truncated decomposition\<close>

text \<open>
  \<^verbatim>\<open>
  def svd(mat, k):
      arr_p = np.ma.masked_array(mat, np.isnan(mat))
      mat = arr_p.filled(np.mean(arr_p, axis=0))
      x = np.tile(np.mean(arr_p, axis=0), (mat.shape[0],1))
      U, s, V=np.linalg.svd(mat-x, full_matrices=False)
      s=np.diag(s)
      ans = np.dot(np.dot(U[:,0:k],sqrtm(s[0:k,0:k])), np.dot(sqrtm(s[0:k,0:k]),V[0:k,:])) +x
      return ans
  \<close>
  \<open>unmasked arr j\<close> are the values of column \<open>j\<close> that the mask leaves, in row order. The
  masked mean of a column is their mean; where the mask leaves nothing the mean has no
  value, which is \<open>None\<close> here.
\<close>

definition unmasked :: "float ndarray \<Rightarrow> nat \<Rightarrow> real list" where
  "unmasked arr j = List.map_filter (\<lambda>i. cell arr i j) [0..<nrows arr]"

definition ma_mean_axis0 :: "float ndarray \<Rightarrow> float list" where
  "ma_mean_axis0 arr =
     map (\<lambda>j. if unmasked arr j = [] then None
              else Some (sum_list (unmasked arr j) / real (length (unmasked arr j))))
         [0..<ncols arr]"

text \<open>\<^verbatim>\<open>arr_p.filled(v)\<close> puts \<open>v ! j\<close> into the masked cells of column \<open>j\<close>.\<close>

definition filled :: "float ndarray \<Rightarrow> float list \<Rightarrow> float ndarray" where
  "filled arr fill_value =
     \<lparr>nrows = nrows arr, ncols = ncols arr,
      cell = \<lambda>i j. (case cell arr i j of None \<Rightarrow> fill_value ! j | Some v \<Rightarrow> Some v)\<rparr>"

text \<open>\<^verbatim>\<open>np.tile(v, (n, 1))\<close> stacks \<open>n\<close> copies of the vector \<open>v\<close> as rows.\<close>

definition tile_rows :: "'a list \<Rightarrow> nat \<Rightarrow> 'a ndarray" where
  "tile_rows v n = \<lparr>nrows = n, ncols = length v, cell = \<lambda>i j. v ! j\<rparr>"

text \<open>
  \<^verbatim>\<open>np.linalg.svd\<close> and \<^verbatim>\<open>scipy.linalg.sqrtm\<close> are library routines and parameters of
  the model; either may fail. A factor that the decomposition returns is an array of
  finite numbers. The source calls \<^verbatim>\<open>sqrtm\<close> twice on the same matrix; the model calls
  it once and uses the result in both products.
\<close>

definition svd ::
  "(float ndarray \<Rightarrow> error + real ndarray \<times> real list \<times> real ndarray) \<Rightarrow>
   (real ndarray \<Rightarrow> error + real ndarray) \<Rightarrow> float ndarray \<Rightarrow> int \<Rightarrow> error + float ndarray" where
  "svd linalg_svd sqrtm mat k =
     (let mean = ma_mean_axis0 mat;
          mat' = filled mat mean;
          x = tile_rows mean (nrows mat')
      in case np_binop fsub mat' x of
           Inl e \<Rightarrow> Inl e
         | Inr centred \<Rightarrow>
        (case linalg_svd centred of
           Inl e \<Rightarrow> Inl e
         | Inr (U, s, V) \<Rightarrow>
        (let s = np_diag s
         in case sqrtm (rows_upto (cols_upto s k) k) of
              Inl e \<Rightarrow> Inl e
            | Inr r \<Rightarrow>
           (case np_dot (cols_upto U k) r of
              Inl e \<Rightarrow> Inl e
            | Inr a \<Rightarrow>
           (case np_dot r (rows_upto V k) of
              Inl e \<Rightarrow> Inl e
            | Inr b \<Rightarrow>
           (case np_dot a b of
              Inl e \<Rightarrow> Inl e
            | Inr p \<Rightarrow> np_binop add_float p x))))))"

text \<open>The matrix \<^verbatim>\<open>mat-x\<close> that \<open>svd\<close> hands to the decomposition.\<close>

definition centred :: "float ndarray \<Rightarrow> float ndarray" where
  "centred mat =
     projr (np_binop fsub (filled mat (ma_mean_axis0 mat))
              (tile_rows (ma_mean_axis0 mat) (nrows (filled mat (ma_mean_axis0 mat)))))"

text \<open>
  In the words of the specification: the rows that hold a value in column \<open>j\<close>, the mean
  of the column over them, and the product of the truncated factors
  \<^verbatim>\<open>U[:, :k]\<close>, \<^verbatim>\<open>S[:k, :k]\<close> and \<^verbatim>\<open>V[:k, :]\<close>.
\<close>

definition observed :: "float ndarray \<Rightarrow> nat \<Rightarrow> nat set" where
  "observed M j = {i. i < nrows M \<and> cell M i j \<noteq> None}"

definition column_mean :: "float ndarray \<Rightarrow> nat \<Rightarrow> real" where
  "column_mean M j = (\<Sum>i\<in>observed M j. the (cell M i j)) / real (card (observed M j))"

definition rank_k_product :: "real ndarray \<Rightarrow> real list \<Rightarrow> real ndarray \<Rightarrow> int \<Rightarrow> error + real ndarray" where
  "rank_k_product U s V k =
     (case np_dot (cols_upto U k) (rows_upto (cols_upto (np_diag s) k) k) of
        Inl e \<Rightarrow> Inl e
      | Inr a \<Rightarrow> np_dot a (rows_upto V k))"

text \<open>
  Example data. A matrix of four users and two items without missing cells; its column
  means are 2 and 1, and the centred matrix factors into \<open>example_U\<close>, the singular
  values 4 and 0, and \<open>example_V\<close>. The square root of a diagonal matrix without negative
  entries is the matrix of the square roots of its cells.
\<close>

definition example_ratings :: "float ndarray" where
  "example_ratings =
     \<lparr>nrows = 4, ncols = 2, cell = \<lambda>i j. Some ([[4, 1], [4, 1], [0, 1], [0, 1]] ! i ! j)\<rparr>"

definition example_U :: "real ndarray" where
  "example_U =
     \<lparr>nrows = 4, ncols = 2,
      cell = \<lambda>i j. [[1/2, 1/2], [1/2, - 1/2], [- 1/2, 1/2], [- 1/2, - 1/2]] ! i ! j\<rparr>"

definition example_V :: "real ndarray" where
  "example_V = \<lparr>nrows = 2, ncols = 2, cell = \<lambda>i j. [[1, 0], [0, 1]] ! i ! j\<rparr>"

definition example_linalg_svd :: "float ndarray \<Rightarrow> error + real ndarray \<times> real list \<times> real ndarray" where
  "example_linalg_svd c = Inr (example_U, [4, 0], example_V)"

definition example_sqrtm :: "real ndarray \<Rightarrow> error + real ndarray" where
  "example_sqrtm D = Inr (D\<lparr>cell := \<lambda>i j. sqrt (cell D i j)\<rparr>)"


section \<open>The topic ranker\<close>

text \<open>
  \<^verbatim>\<open>
  num_top_words = 8
  def show_topics(a):
      top_words = lambda t: [vocab[i] for i in np.argsort(t)[:-num_top_words-1:-1]]
      topic_words = [top_words(t) for t in a]
      return [' '.join(t) for t in topic_words]
  \<close>
  The slice \<^verbatim>\<open>[:-n-1:-1]\<close> walks the sequence backwards from its last element and stops
  before position \<^verbatim>\<open>-n-1\<close>: for \<open>0 \<le> n\<close> these are the last \<open>n\<close> elements (all of
  them when there are fewer), last one first; for \<open>n < 0\<close> the stop position is counted
  from the front.
\<close>

definition slice_last_rev :: "int \<Rightarrow> 'a list \<Rightarrow> 'a list" where
  "slice_last_rev n xs =
     take (if 0 \<le> n then min (nat n) (length xs) else nat (int (length xs) + n)) (rev xs)"

text \<open>\<^verbatim>\<open>[vocab[i] for i in idx]\<close>: an index beyond the vocabulary raises.\<close>

definition take_terms :: "'a list \<Rightarrow> nat list \<Rightarrow> error + 'a list" where
  "take_terms vocab idx =
     (if list_all (\<lambda>i. i < length vocab) idx then Inr (map (\<lambda>i. vocab ! i) idx)
      else Inl IndexError)"

text \<open>
  \<^verbatim>\<open>np.argsort\<close> belongs to numpy and is a parameter of the model. What numpy promises
  of it is \<open>is_argsort\<close>: the result lists every index once, by ascending value. Its
  default algorithm is not stable in general, so the order of equal values is left open.
\<close>

definition is_argsort :: "nat list \<Rightarrow> real list \<Rightarrow> bool" where
  "is_argsort a t = (distinct a \<and> set a = {0..<length t} \<and> sorted (map (\<lambda>i. t ! i) a))"

text \<open>
  On rows of at most sixteen elements numpy sorts by insertion, which is stable: equal
  values keep the order of their indices.
\<close>

definition stable_argsort :: "real list \<Rightarrow> nat list" where
  "stable_argsort t = sort_key (\<lambda>i. t ! i) [0..<length t]"

definition top_words :: "(real list \<Rightarrow> nat list) \<Rightarrow> 'a list \<Rightarrow> int \<Rightarrow> real list \<Rightarrow> error + 'a list" where
  "top_words argsort vocab num_top_words t =
     take_terms vocab (slice_last_rev num_top_words (argsort t))"

fun join_space :: "string list \<Rightarrow> string" where
  "join_space [] = []"
| "join_space [w] = w"
| "join_space (w # ws) = w @ '' '' @ join_space ws"

text \<open>A list comprehension whose body may raise: the first exception ends it.\<close>

fun map_err :: "('a \<Rightarrow> error + 'b) \<Rightarrow> 'a list \<Rightarrow> error + 'b list" where
  "map_err f [] = Inr []"
| "map_err f (x # xs) =
     (case f x of
        Inl e \<Rightarrow> Inl e
      | Inr y \<Rightarrow> (case map_err f xs of Inl e \<Rightarrow> Inl e | Inr ys \<Rightarrow> Inr (y # ys)))"

definition show_topics :: "(real list \<Rightarrow> nat list) \<Rightarrow> string list \<Rightarrow> int \<Rightarrow> real list list \<Rightarrow> error + string list" where
  "show_topics argsort vocab num_top_words a =
     (case map_err (top_words argsort vocab num_top_words) a of
        Inl e \<Rightarrow> Inl e
      | Inr topic_words \<Rightarrow> Inr (map join_space topic_words))"

text \<open>
  The ranking in the words of the specification: the \<open>n\<close> indices of the largest values,
  by descending value, equal values by ascending index.
\<close>

definition ranked_indices :: "real list \<Rightarrow> nat \<Rightarrow> nat list" where
  "ranked_indices t n = take n (sort_key (\<lambda>i. - (t ! i)) [0..<length t])"

section \<open>The matrix builder\<close>

text \<open>
  \<^verbatim>\<open>
  def create_utility_matrix(data, formatizer = {'user':0, 'item': 1, 'value': 2}):
      itemField = formatizer['item']
      userField = formatizer['user']
      valueField = formatizer['value']
      userList = data.iloc[:,userField].tolist()
      itemList = data.iloc[:,itemField].tolist()
      valueList = data.iloc[:,valueField].tolist()
      users = list(set(data.iloc[:,userField]))
      items = list(set(data.iloc[:,itemField]))
      users_index = {users[i]: i for i in range(len(users))}
      pd_dict = {item: [np.nan for i in range(len(users))] for item in items}
      for i in range(0,len(data)):
          item = itemList[i]
          user = userList[i]
          value = valueList[i]
          pd_dict[item][users_index[user]] = value
      X = pd.DataFrame(pd_dict)
      X.index = users
      itemcols = list(X.columns)
      items_index = {itemcols[i]: i for i in range(len(itemcols))}
      return X, users_index, items_index
  \<close>
  The data are the rows of the frame, each with its user, item and value column. A data
  frame is its row labels, its column labels in order, and one list of cells per column.
  Two users or items are one when they are equal.
\<close>

record 'k dataframe =
  df_index :: "'k list"
  df_columns :: "'k list"
  df_series :: "'k \<rightharpoonup> float list"

text \<open>
  The dictionary \<^verbatim>\<open>{xs[i]: i for i in range(len(xs))}\<close>: the entries are stored one
  after the other, a later entry for the same key replacing an earlier one.
\<close>

definition index_entry :: "'k list \<Rightarrow> nat \<Rightarrow> ('k \<rightharpoonup> nat) \<Rightarrow> ('k \<rightharpoonup> nat)" where
  "index_entry xs i m = m(xs ! i \<mapsto> i)"

definition enumerate_index :: "'k list \<Rightarrow> ('k \<rightharpoonup> nat)" where
  "enumerate_index xs = fold (index_entry xs) [0..<length xs] Map.empty"

text \<open>One fresh column of \<open>n\<close> missing cells per item.\<close>

definition nan_columns :: "'k list \<Rightarrow> nat \<Rightarrow> ('k \<rightharpoonup> float list)" where
  "nan_columns items n = fold (\<lambda>item d. d(item \<mapsto> replicate n None)) items Map.empty"

text \<open>
  The loop over the rows. A look-up of an absent key and an assignment beyond the end
  of a column raise.
\<close>

fun fill_cells :: "('k \<rightharpoonup> nat) \<Rightarrow> ('k \<times> 'k \<times> float) list \<Rightarrow> ('k \<rightharpoonup> float list) \<Rightarrow> error + ('k \<rightharpoonup> float list)" where
  "fill_cells users_index [] pd_dict = Inr pd_dict"
| "fill_cells users_index ((user, item, val) # rest) pd_dict =
     (case pd_dict item of
        None \<Rightarrow> Inl KeyError
      | Some col \<Rightarrow>
          (case users_index user of
             None \<Rightarrow> Inl KeyError
           | Some r \<Rightarrow>
               if r < length col
               then fill_cells users_index rest (pd_dict(item \<mapsto> col[r := val]))
               else Inl IndexError))"

text \<open>
  \<^verbatim>\<open>list(set(xs))\<close> lists the distinct elements of \<open>xs\<close> in an order that Python does
  not fix; the function \<open>list_set\<close> that does it is a parameter. The columns of the frame
  are the keys of the dictionary in the order they were stored, which is \<open>items\<close>.
\<close>

definition create_utility_matrix ::
  "('k list \<Rightarrow> 'k list) \<Rightarrow> ('k \<times> 'k \<times> float) list \<Rightarrow>
   error + 'k dataframe \<times> ('k \<rightharpoonup> nat) \<times> ('k \<rightharpoonup> nat)" where
  "create_utility_matrix list_set data =
     (let userList = map fst data;
          itemList = map (fst \<circ> snd) data;
          users = list_set userList;
          items = list_set itemList;
          users_index = enumerate_index users;
          pd_dict = nan_columns items (length users)
      in case fill_cells users_index data pd_dict of
           Inl e \<Rightarrow> Inl e
         | Inr pd_dict \<Rightarrow>
             (let X = \<lparr>df_index = users, df_columns = items, df_series = pd_dict\<rparr>;
                  itemcols = df_columns X;
                  items_index = enumerate_index itemcols
              in Inr (X, users_index, items_index)))"

text \<open>\<^verbatim>\<open>np.array(mat)\<close>: the frame as a matrix, one row per user and one column per item.\<close>

definition to_ndarray :: "'k dataframe \<Rightarrow> float ndarray" where
  "to_ndarray X =
     \<lparr>nrows = length (df_index X), ncols = length (df_columns X),
      cell = \<lambda>i j. the (df_series X (df_columns X ! j)) ! i\<rparr>"

text \<open>
  In the words of the specification: the value of the last observation of a pair of user
  and item.
\<close>

definition last_value :: "('k \<times> 'k \<times> float) list \<Rightarrow> 'k \<Rightarrow> 'k \<Rightarrow> float" where
  "last_value data u it = snd (snd (last (filter (\<lambda>(u', it', v). u' = u \<and> it' = it) data)))"

text \<open>The values that the loop writes into row \<open>r\<close> of the column of an item, in order.\<close>

definition writes :: "('k \<rightharpoonup> nat) \<Rightarrow> ('k \<times> 'k \<times> float) list \<Rightarrow> nat \<Rightarrow> 'k \<Rightarrow> float list" where
  "writes ui xs r it = map (snd \<circ> snd) (filter (\<lambda>(u, it', v). ui u = Some r \<and> it' = it) xs)"

text \<open>Three observations; the first user has rated the same item twice.\<close>

definition example_observations :: "(string \<times> string \<times> float) list" where
  "example_observations =
     [(''u1'', ''a'', Some 5), (''u2'', ''a'', Some 3), (''u1'', ''a'', Some 4)]"

section \<open>The rating predictor\<close>

text \<open>
  \<^verbatim>\<open>
  for _,ar in test.iterrows():
      if ar['movieId'] not in movie_arr:
          arr_pred.append(np.mean(out[users_ind[ar['userId']], :]))
      else:
          arr_pred.append(out[users_ind[ar['userId']], movie_arr[ar['movieId']]])
  \<close>
  A row of the held-out data has the four columns of the ratings file.
\<close>

record 'k rating_row =
  userId :: 'k
  movieId :: 'k
  rating :: real
  timestamp :: int

text \<open>
  \<^verbatim>\<open>np.mean\<close> of a vector: not-a-number when the vector is empty or holds a
  not-a-number.
\<close>

definition np_mean :: "float list \<Rightarrow> float" where
  "np_mean xs =
     (if xs = [] \<or> None \<in> set xs then None
      else Some (sum_list (map the xs) / real (length xs)))"

definition predict :: "float ndarray \<Rightarrow> ('k \<rightharpoonup> nat) \<Rightarrow> ('k \<rightharpoonup> nat) \<Rightarrow> 'k rating_row \<Rightarrow> error + float" where
  "predict out users_ind movie_arr ar =
     (case movie_arr (movieId ar) of
        None \<Rightarrow>
          (case users_ind (userId ar) of
             None \<Rightarrow> Inl KeyError
           | Some u \<Rightarrow>
               if u < nrows out then Inr (np_mean (map (cell out u) [0..<ncols out]))
               else Inl IndexError)
      | Some c \<Rightarrow>
          (case users_ind (userId ar) of
             None \<Rightarrow> Inl KeyError
           | Some u \<Rightarrow>
               if u < nrows out \<and> c < ncols out then Inr (cell out u c) else Inl IndexError))"

definition predictions :: "float ndarray \<Rightarrow> ('k \<rightharpoonup> nat) \<Rightarrow> ('k \<rightharpoonup> nat) \<Rightarrow> 'k rating_row list \<Rightarrow> error + float list" where
  "predictions out users_ind movie_arr test = map_err (predict out users_ind movie_arr) test"

text \<open>
  In the words of the specification: the mean of a row of the reconstructed matrix, and
  the predicted value of a held-out observation.
\<close>

definition row_mean :: "float ndarray \<Rightarrow> nat \<Rightarrow> float" where
  "row_mean M u =
     (if ncols M = 0 \<or> (\<exists>j<ncols M. cell M u j = None) then None
      else Some ((\<Sum>j<ncols M. the (cell M u j)) / real (ncols M)))"

definition prediction_rule :: "float ndarray \<Rightarrow> ('k \<rightharpoonup> nat) \<Rightarrow> ('k \<rightharpoonup> nat) \<Rightarrow> 'k rating_row \<Rightarrow> float" where
  "prediction_rule M users_ind movie_arr ar =
     (case movie_arr (movieId ar) of
        None \<Rightarrow> row_mean M (the (users_ind (userId ar)))
      | Some c \<Rightarrow> cell M (the (users_ind (userId ar))) c)"

section \<open>Properties of the error metric\<close>

lemma sum_list_sq_diff:
  fixes a b :: "real list"
  shows "length a = length b \<Longrightarrow>
   sum_list (map (\<lambda>xi. xi * xi) (map (\<lambda>(x, y). x - y) (zip a b))) =
   (\<Sum>i<length a. (a ! i - b ! i)\<^sup>2)"
proof (induction a b rule: list_induct2)
  case Nil
  then show ?case by simp
next
  case (Cons x xs y ys)
  have "(\<Sum>i<Suc (length xs). ((x # xs) ! i - (y # ys) ! i)\<^sup>2) =
        (x - y)\<^sup>2 + (\<Sum>i<length xs. (xs ! i - ys ! i)\<^sup>2)"
    by (subst sum.lessThan_Suc_shift) simp
  with Cons show ?case by (simp add: power2_eq_square)
qed

lemma rmse_equal_length:
  assumes "length true = length pred" and "0 < length true"
  shows "rmse true pred = Inr (mean_squared_error true pred)"
    and "rmse2 true pred = Inr (mean_squared_error true pred)"
  using assms sum_list_sq_diff [of true pred]
  by (simp_all add: rmse_def rmse2_def np_sub_def mean_squared_error_def del: map_map)

lemma rmse_agree_equal_length: "length true = length pred \<Longrightarrow> rmse true pred = rmse2 true pred"
  by (simp add: rmse_def rmse2_def np_sub_def)

lemma rmse_value_error:
  "length true \<noteq> length pred \<Longrightarrow> length true \<noteq> 1 \<Longrightarrow> length pred \<noteq> 1 \<Longrightarrow>
   rmse true pred = Inl ValueError \<and> rmse2 true pred = Inl ValueError"
  by (simp add: rmse_def rmse2_def np_sub_def)

text \<open>
  C2. On two sequences of the same positive length N both definitions of the metric
  return (1/N) times the sum of the squared differences, with no square root; on
  true = [1,2,3], pred = [1,2,3] the result is 0 and on true = [0,0], pred = [1,1] it is 1.
\<close>

theorem rmse_is_mean_squared_error:
  "length true = length pred \<Longrightarrow> 0 < length true \<Longrightarrow>
   rmse true pred = Inr (mean_squared_error true pred) \<and>
   rmse2 true pred = Inr (mean_squared_error true pred) \<and>
   rmse [1, 2, 3] [1, 2, 3] = Inr 0 \<and> rmse2 [1, 2, 3] [1, 2, 3] = Inr 0 \<and>
   rmse [0, 0] [1, 1] = Inr 1 \<and> rmse2 [0, 0] [1, 1] = Inr 1"
proof -
  assume len: "length true = length pred" "0 < length true"
  have examples:
    "rmse [1, 2, 3] [1, 2, 3] = Inr 0" "rmse2 [1, 2, 3] [1, 2, 3] = Inr 0"
    "rmse [0, 0] [1, 1] = Inr 1" "rmse2 [0, 0] [1, 1] = Inr 1"
    by (simp_all add: rmse_def rmse2_def np_sub_def)
  from rmse_equal_length [OF len] examples show ?thesis by simp
qed

theorem rmse_is_mean_squared_error_witness:
  "length [2, 4 :: real] = length [1, 1 :: real] \<and> 0 < length [2, 4 :: real] \<and>
   rmse [2, 4] [1, 1] = Inr 5 \<and> rmse2 [2, 4] [1, 1] = Inr 5"
  using rmse_is_mean_squared_error [of "[2, 4]" "[1, 1]"]
  by (simp add: mean_squared_error_def lessThan_Suc eval_nat_numeral)

text \<open>
  C5, as stated, fails: neither definition checks the lengths, and the subtraction
  broadcasts a prediction sequence of length one. On true = [1,2,3] and pred = [1] the metric
  returns 5/3 and no error.
\<close>

theorem rmse_length_mismatch_counterexample:
  "length [1, 2, 3 :: real] \<noteq> length [1 :: real] \<and>
   rmse [1, 2, 3] [1] = Inr (5 / 3) \<and> rmse2 [1, 2, 3] [1] = Inr (5 / 3)"
  by (simp add: rmse_def rmse2_def np_sub_def)

text \<open>
  C5, amended. On two sequences of different lengths, neither of which is one, both
  definitions of the metric fail with the \<^verbatim>\<open>ValueError\<close> of the subtraction. A
  prediction sequence of length one is broadcast instead: on a non-empty \<^verbatim>\<open>true\<close>
  the metric then returns the mean of the squared differences to that one prediction.
\<close>

theorem rmse_length_mismatch:
  "length true \<noteq> length pred \<Longrightarrow>
   (length true \<noteq> 1 \<and> length pred \<noteq> 1 \<longrightarrow>
      rmse true pred = Inl ValueError \<and> rmse2 true pred = Inl ValueError) \<and>
   (length pred = 1 \<and> true \<noteq> [] \<longrightarrow>
      rmse2 true pred =
        Inr (sum_list (map (\<lambda>t. (t - hd pred) * (t - hd pred)) true) / real (length true)))"
  by (simp add: rmse_def rmse2_def np_sub_def comp_def)

theorem rmse_length_mismatch_witness:
  "length [1, 2, 3 :: real] \<noteq> length [1, 2 :: real] \<and>
   rmse [1, 2, 3] [1, 2] = Inl ValueError \<and> rmse2 [1, 2, 3] [1, 2] = Inl ValueError \<and>
   length [1, 2, 3 :: real] \<noteq> length [1 :: real] \<and> rmse2 [1, 2, 3] [1] = Inr (5 / 3)"
  using rmse_length_mismatch [of "[1, 2, 3]" "[1, 2]"] rmse_length_mismatch [of "[1, 2, 3]" "[1]"]
  by simp

text \<open>
  C9, as stated, fails: there is no pair of sequences of equal length on which the two
  definitions of the metric return different results.
\<close>

theorem rmse_definitions_differ_counterexample:
  "\<not> (\<exists>true pred. length true = length pred \<and> rmse true pred \<noteq> rmse2 true pred)"
  by (simp add: rmse_agree_equal_length)

text \<open>
  C9, amended. The two definitions differ in the divisor alone, the length of the
  difference against the length of \<^verbatim>\<open>true\<close>. On every pair of sequences of equal
  length these are the same number and both definitions return the same result: the same
  value, or the same \<^verbatim>\<open>ZeroDivisionError\<close> on two empty sequences. On true = [0, 0],
  pred = [1, 1] both return 1.
\<close>

theorem rmse_definitions_agree:
  "length true = length pred \<Longrightarrow>
   rmse true pred = rmse2 true pred \<and>
   (true = [] \<longrightarrow> rmse true pred = Inl ZeroDivisionError) \<and>
   (true \<noteq> [] \<longrightarrow> rmse true pred = Inr (mean_squared_error true pred)) \<and>
   rmse [0, 0] [1, 1] = Inr 1 \<and> rmse2 [0, 0] [1, 1] = Inr 1"
proof -
  assume len: "length true = length pred"
  have "rmse [0, 0] [1, 1] = Inr 1" "rmse2 [0, 0] [1, 1] = Inr 1"
    by (simp_all add: rmse_def rmse2_def np_sub_def)
  moreover have "rmse true pred = Inl ZeroDivisionError" if "true = []"
    using len that by (simp add: rmse_def np_sub_def)
  moreover have "rmse true pred = Inr (mean_squared_error true pred)" if "true \<noteq> []"
    using rmse_equal_length(1) [OF len] that by simp
  ultimately show ?thesis
    using rmse_agree_equal_length [OF len] by blast
qed

theorem rmse_definitions_agree_witness:
  "length [2, 4 :: real] = length [1, 1 :: real] \<and>
   rmse [2, 4] [1, 1] = rmse2 [2, 4] [1, 1] \<and> rmse [2, 4] [1, 1] = Inr 5 \<and>
   length ([] :: real list) = length ([] :: real list) \<and>
   rmse [] [] = rmse2 [] [] \<and> rmse [] [] = Inl ZeroDivisionError"
proof -
  have "mean_squared_error [2, 4] [1, 1] = 5"
    by (simp add: mean_squared_error_def lessThan_Suc eval_nat_numeral)
  then show ?thesis
    using rmse_definitions_agree [of "[2, 4]" "[1, 1]"] rmse_definitions_agree [of "[]" "[]"]
    by auto
qed

section \<open>Properties of the topic ranker\<close>

lemma insort_key_lex:
  fixes f :: "nat \<Rightarrow> real"
  assumes "sorted_wrt (\<lambda>i j. f i < f j \<or> (f i = f j \<and> i < j)) ys" and "\<forall>y\<in>set ys. x < y"
  shows "sorted_wrt (\<lambda>i j. f i < f j \<or> (f i = f j \<and> i < j)) (insort_key f x ys)"
  using assms
proof (induction ys)
  case Nil
  then show ?case by simp
next
  case (Cons y ys)
  show ?case
  proof (cases "f x \<le> f y")
    case True
    have "\<forall>z\<in>set ys. f y \<le> f z" using Cons.prems(1) by auto
    with True Cons.prems show ?thesis by (auto simp: less_le)
  next
    case False
    have "set (insort_key f x ys) = insert x (set ys)" by (simp add: set_insort_key)
    with False Cons show ?thesis by auto
  qed
qed

lemma sort_key_upt_lex:
  fixes f :: "nat \<Rightarrow> real"
  shows "sorted_wrt (\<lambda>i j. f i < f j \<or> (f i = f j \<and> i < j)) (sort_key f [m..<n])"
proof (induction "n - m" arbitrary: m)
  case 0
  then show ?case by simp
next
  case (Suc d)
  then have mn: "m < n" and d: "d = n - Suc m" by auto
  have "[m..<n] = m # [Suc m..<n]" using mn by (simp add: upt_conv_Cons)
  moreover have "\<forall>y\<in>set (sort_key f [Suc m..<n]). m < y" by auto
  ultimately show ?case using Suc.hyps(1) [OF d] by (simp add: insort_key_lex)
qed

lemma stable_argsort_is_argsort: "is_argsort (stable_argsort t) t"
  by (simp add: is_argsort_def stable_argsort_def)

lemma slice_last_rev_nonneg: "0 \<le> n \<Longrightarrow> slice_last_rev n xs = take (nat n) (rev xs)"
  by (simp add: slice_last_rev_def min_def)

lemma top_indices_descending:
  assumes "is_argsort a t"
  shows "sorted_wrt (\<lambda>i j. t ! j \<le> t ! i) (take c (rev a))"
proof -
  have "sorted_wrt (\<lambda>i j. t ! i \<le> t ! j) a"
    using assms by (simp add: is_argsort_def sorted_map)
  then have "sorted_wrt (\<lambda>i j. t ! j \<le> t ! i) (rev a)"
    by (simp add: sorted_wrt_rev)
  then show ?thesis by (rule sorted_wrt_take)
qed

lemma top_indices_largest:
  assumes "is_argsort a t" and "i \<in> set (take c (rev a))" and "j < length t"
    and "j \<notin> set (take c (rev a))"
  shows "t ! j \<le> t ! i"
proof -
  have "sorted_wrt (\<lambda>i j. t ! i \<le> t ! j) a"
    using assms(1) by (simp add: is_argsort_def sorted_map)
  then have "sorted_wrt (\<lambda>i j. t ! j \<le> t ! i) (rev a)"
    by (simp add: sorted_wrt_rev)
  then have all: "\<forall>x\<in>set (take c (rev a)). \<forall>y\<in>set (drop c (rev a)). t ! y \<le> t ! x"
    using sorted_wrt_append [of "\<lambda>i j. t ! j \<le> t ! i" "take c (rev a)" "drop c (rev a)"]
    by simp
  have "j \<in> set (rev a)" using assms(1,3) by (simp add: is_argsort_def)
  then have "j \<in> set (take c (rev a) @ drop c (rev a))" by simp
  with assms(4) have "j \<in> set (drop c (rev a))" by (simp del: append_take_drop_id)
  with all assms(2) show ?thesis by blast
qed

lemma take_terms_in_range:
  "set idx \<subseteq> {0..<length vocab} \<Longrightarrow> take_terms vocab idx = Inr (map (\<lambda>i. vocab ! i) idx)"
  by (auto simp: take_terms_def list_all_iff)

lemma top_indices_range:
  assumes "is_argsort a t"
  shows "set (take c (rev a)) \<subseteq> {0..<length t}" and "distinct (take c (rev a))"
    and "length (take c (rev a)) = min c (length t)"
proof -
  have "set (take c (rev a)) \<subseteq> set (rev a)" by (rule set_take_subset)
  then show "set (take c (rev a)) \<subseteq> {0..<length t}"
    using assms by (simp add: is_argsort_def)
  show "distinct (take c (rev a))" using assms by (simp add: is_argsort_def)
  have "length a = length t"
    using assms distinct_card [of a] by (simp add: is_argsort_def)
  then show "length (take c (rev a)) = min c (length t)" by (simp add: min.commute)
qed

lemma stable_top_indices_lex:
  "sorted_wrt (\<lambda>i j. t ! j < t ! i \<or> (t ! j = t ! i \<and> j < i)) (take c (rev (stable_argsort t)))"
proof -
  have "sorted_wrt (\<lambda>i j. t ! i < t ! j \<or> (t ! i = t ! j \<and> i < j)) (stable_argsort t)"
    unfolding stable_argsort_def by (rule sort_key_upt_lex)
  then have "sorted_wrt (\<lambda>i j. t ! j < t ! i \<or> (t ! j = t ! i \<and> j < i)) (rev (stable_argsort t))"
    by (simp add: sorted_wrt_rev)
  then show ?thesis by (rule sorted_wrt_take)
qed

text \<open>
  C8, amended. For a weight row \<open>t\<close>, a vocabulary of the same length and a count
  \<open>0 \<le> n\<close>, the topic ranker returns the terms of the last \<open>n\<close> indices of the
  ascending argsort of \<open>t\<close>, last one first (all indices when there are fewer than
  \<open>n\<close>): these are distinct indices, their values descend, and no index left out has a
  larger value than one selected. Where the argsort is stable, equal values come by
  descending index. The result is a function of the row, the vocabulary and \<open>n\<close> alone.
\<close>

theorem top_words_ranking:
  "is_argsort (argsort t) t \<Longrightarrow> length vocab = length t \<Longrightarrow> 0 \<le> n \<Longrightarrow>
   top_words argsort vocab n t = Inr (map (\<lambda>i. vocab ! i) (take (nat n) (rev (argsort t)))) \<and>
   length (take (nat n) (rev (argsort t))) = min (nat n) (length t) \<and>
   distinct (take (nat n) (rev (argsort t))) \<and>
   sorted_wrt (\<lambda>i j. t ! j \<le> t ! i) (take (nat n) (rev (argsort t))) \<and>
   (\<forall>i\<in>set (take (nat n) (rev (argsort t))). \<forall>j<length t.
      j \<notin> set (take (nat n) (rev (argsort t))) \<longrightarrow> t ! j \<le> t ! i) \<and>
   top_words stable_argsort vocab n t =
     Inr (map (\<lambda>i. vocab ! i) (take (nat n) (rev (stable_argsort t)))) \<and>
   sorted_wrt (\<lambda>i j. t ! j < t ! i \<or> (t ! j = t ! i \<and> j < i))
     (take (nat n) (rev (stable_argsort t)))"
proof -
  assume a: "is_argsort (argsort t) t" and len: "length vocab = length t" and n: "0 \<le> n"
  have s: "is_argsort (stable_argsort t) t" by (rule stable_argsort_is_argsort)
  have "top_words argsort vocab n t = Inr (map (\<lambda>i. vocab ! i) (take (nat n) (rev (argsort t))))"
    using top_indices_range(1) [OF a] len n
    by (simp add: top_words_def slice_last_rev_nonneg take_terms_in_range)
  moreover have "top_words stable_argsort vocab n t =
      Inr (map (\<lambda>i. vocab ! i) (take (nat n) (rev (stable_argsort t))))"
    using top_indices_range(1) [OF s] len n
    by (simp add: top_words_def slice_last_rev_nonneg take_terms_in_range)
  moreover note top_indices_range(2,3) [OF a] top_indices_descending [OF a]
    stable_top_indices_lex [of t "nat n"]
  moreover have "\<forall>i\<in>set (take (nat n) (rev (argsort t))). \<forall>j<length t.
      j \<notin> set (take (nat n) (rev (argsort t))) \<longrightarrow> t ! j \<le> t ! i"
    using top_indices_largest [OF a] by blast
  ultimately show ?thesis by blast
qed

theorem top_words_ranking_witness:
  "is_argsort (stable_argsort [1, 5, 1, 3]) [1, 5, 1, 3] \<and>
   length [''a'', ''b'', ''c'', ''d''] = length [1, 5, 1, 3 :: real] \<and> (0 :: int) \<le> 3 \<and>
   top_words stable_argsort [''a'', ''b'', ''c'', ''d''] 3 [1, 5, 1, 3] = Inr [''b'', ''d'', ''c'']"
proof -
  have h: "is_argsort (stable_argsort [1, 5, 1, 3]) [1, 5, 1, 3]"
    by (rule stable_argsort_is_argsort)
  have "top_words stable_argsort [''a'', ''b'', ''c'', ''d''] 3 [1, 5, 1, 3] =
        Inr (map (\<lambda>i. [''a'', ''b'', ''c'', ''d''] ! i)
               (take (nat 3) (rev (stable_argsort [1, 5, 1, 3]))))"
    using top_words_ranking [of stable_argsort "[1, 5, 1, 3]" "[''a'', ''b'', ''c'', ''d'']" 3] h
    by simp
  moreover have "take (nat 3) (rev (stable_argsort [1, 5, 1, 3])) = [1, 3, 2]"
    by (simp add: stable_argsort_def upt_rec)
  ultimately show ?thesis using h by simp
qed

text \<open>
  C8, as stated, fails on equal weights: for the row [1, 1], vocabulary [a, b] and
  \<open>n = 2\<close> the ranker returns [b, a], the higher index first, where the ranking by
  descending value and ascending index is [a, b].
\<close>

theorem top_words_ties_counterexample:
  "top_words stable_argsort [''a'', ''b''] 2 [1, 1] = Inr [''b'', ''a''] \<and>
   map (\<lambda>i. [''a'', ''b''] ! i) (ranked_indices [1, 1] 2) = [''a'', ''b'']"
  by (simp add: top_words_def take_terms_def slice_last_rev_def stable_argsort_def
      ranked_indices_def upt_rec)

section \<open>Properties of imputation and of the truncated decomposition\<close>

lemma unmasked_upto:
  "List.map_filter (\<lambda>i. f i) [0..<n] = map (\<lambda>i. the (f i)) (filter (\<lambda>i. f i \<noteq> None) [0..<n])"
  by (simp add: List.map_filter_def comp_def)

lemma unmasked_sum: "sum_list (unmasked M j) = (\<Sum>i\<in>observed M j. the (cell M i j))"
proof -
  have "set (filter (\<lambda>i. cell M i j \<noteq> None) [0..<nrows M]) = observed M j"
    by (auto simp: observed_def)
  moreover have "distinct (filter (\<lambda>i. cell M i j \<noteq> None) [0..<nrows M])" by simp
  ultimately show ?thesis
    unfolding unmasked_def unmasked_upto
    by (metis sum_list_distinct_conv_sum_set)
qed

lemma unmasked_length: "length (unmasked M j) = card (observed M j)"
proof -
  have "set (filter (\<lambda>i. cell M i j \<noteq> None) [0..<nrows M]) = observed M j"
    by (auto simp: observed_def)
  moreover have "distinct (filter (\<lambda>i. cell M i j \<noteq> None) [0..<nrows M])" by simp
  ultimately show ?thesis
    unfolding unmasked_def unmasked_upto
    by (metis distinct_card length_map)
qed

lemma observed_finite: "finite (observed M j)"
  by (simp add: observed_def)

lemma unmasked_Nil: "unmasked M j = [] \<longleftrightarrow> observed M j = {}"
proof -
  have "unmasked M j = [] \<longleftrightarrow> card (observed M j) = 0"
    using unmasked_length [of M j] by (simp flip: length_0_conv)
  then show ?thesis by (simp add: observed_finite)
qed

lemma ma_mean_nth:
  "j < ncols M \<Longrightarrow>
   ma_mean_axis0 M ! j = (if observed M j = {} then None else Some (column_mean M j))"
  by (simp add: ma_mean_axis0_def unmasked_sum unmasked_length unmasked_Nil column_mean_def)

lemma ma_mean_length: "length (ma_mean_axis0 M) = ncols M"
  by (simp add: ma_mean_axis0_def)

lemma np_binop_same_shape:
  assumes "nrows A = nrows B" and "ncols A = ncols B"
  shows "\<exists>R. np_binop f A B = Inr R \<and> nrows R = nrows A \<and> ncols R = ncols A \<and>
             (\<forall>i<nrows A. \<forall>j<ncols A. cell R i j = f (cell A i j) (cell B i j))"
  using assms by (auto simp: np_binop_def broadcast_dim_def)

lemma centre_ok:
  "np_binop fsub (filled mat (ma_mean_axis0 mat))
     (tile_rows (ma_mean_axis0 mat) (nrows (filled mat (ma_mean_axis0 mat)))) = Inr (centred mat)"
  by (simp add: centred_def np_binop_def broadcast_dim_def filled_def tile_rows_def ma_mean_length)

text \<open>\<open>svd\<close> hands \<open>centred mat\<close> to the decomposition, and fails when that fails.\<close>

lemma svd_decomposition_fails:
  "linalg_svd (centred mat) = Inl e \<Longrightarrow> svd linalg_svd sqrtm mat k = Inl e"
  by (simp add: svd_def Let_def centre_ok)

lemma centred_shape: "nrows (centred mat) = nrows mat" "ncols (centred mat) = ncols mat"
  by (simp_all add: centred_def np_binop_def broadcast_dim_def filled_def tile_rows_def ma_mean_length)

lemma centred_cell:
  assumes "i < nrows mat" and "j < ncols mat"
  shows "cell (centred mat) i j =
     fsub (case cell mat i j of None \<Rightarrow> ma_mean_axis0 mat ! j | Some v \<Rightarrow> Some v)
          (ma_mean_axis0 mat ! j)"
proof -
  let ?A = "filled mat (ma_mean_axis0 mat)"
  let ?B = "tile_rows (ma_mean_axis0 mat) (nrows ?A)"
  have "nrows ?A = nrows ?B" "ncols ?A = ncols ?B"
    by (simp_all add: filled_def tile_rows_def ma_mean_length)
  from np_binop_same_shape [OF this, of fsub] obtain R where
    R: "np_binop fsub ?A ?B = Inr R"
       "\<forall>i<nrows ?A. \<forall>j<ncols ?A. cell R i j = fsub (cell ?A i j) (cell ?B i j)"
    by blast
  from R(1) have "centred mat = R" by (simp add: centred_def)
  moreover have "i < nrows ?A" "j < ncols ?A" using assms by (simp_all add: filled_def)
  ultimately have "cell (centred mat) i j = fsub (cell ?A i j) (cell ?B i j)"
    using R(2) by blast
  then show ?thesis by (simp add: filled_def tile_rows_def)
qed

lemma observed_dense:
  "\<forall>i<nrows mat. cell mat i j \<noteq> None \<Longrightarrow> observed mat j = {..<nrows mat}"
  by (auto simp: observed_def)







lemma sqrt_split:
  fixes R :: "nat \<Rightarrow> nat \<Rightarrow> real"
  assumes "\<forall>l<q. \<forall>b<q. (\<Sum>a<q. R l a * R a b) = (if l = b then d l else 0)"
  shows "(\<Sum>a<q. (\<Sum>l<q. u l * R l a) * (\<Sum>b<q. R a b * v b)) = (\<Sum>l<q. u l * d l * v l)"
proof -
  have "(\<Sum>a<q. (\<Sum>l<q. u l * R l a) * (\<Sum>b<q. R a b * v b)) =
        (\<Sum>a<q. \<Sum>l<q. \<Sum>b<q. u l * v b * (R l a * R a b))"
    by (simp add: sum_product algebra_simps)
  also have "\<dots> = (\<Sum>l<q. \<Sum>a<q. \<Sum>b<q. u l * v b * (R l a * R a b))"
    by (rule sum.swap)
  also have "\<dots> = (\<Sum>l<q. \<Sum>b<q. \<Sum>a<q. u l * v b * (R l a * R a b))"
    by (intro sum.cong refl sum.swap)
  also have "\<dots> = (\<Sum>l<q. \<Sum>b<q. u l * v b * (\<Sum>a<q. R l a * R a b))"
    by (simp add: sum_distrib_left)
  also have "\<dots> = (\<Sum>l<q. \<Sum>b<q. if b = l then u l * d l * v l else 0)"
    using assms by (intro sum.cong refl) auto
  also have "\<dots> = (\<Sum>l<q. u l * d l * v l)"
    by (intro sum.cong refl) (simp add: sum.delta)
  finally show ?thesis .
qed

lemma diag_product:
  fixes u :: "nat \<Rightarrow> real"
  shows "(\<Sum>b<q. (\<Sum>a<q. u a * (if a = b then d a else 0)) * v b) = (\<Sum>l<q. u l * d l * v l)"
proof -
  have "(\<Sum>a<q. u a * (if a = b then d a else 0)) = u b * d b" if "b < q" for b
  proof -
    have "(\<Sum>a<q. u a * (if a = b then d a else 0)) = (\<Sum>a<q. if a = b then u a * d a else 0)"
      by (intro sum.cong refl) simp
    also have "\<dots> = u b * d b" using that by (simp add: sum.delta)
    finally show ?thesis .
  qed
  then show ?thesis by (intro sum.cong refl) simp
qed

lemma svd_value:
  assumes lib: "linalg_svd (centred mat) = Inr (U, s, V)"
    and shapes: "nrows U = nrows mat" "ncols V = ncols mat"
    and q: "slice_stop (ncols U) k = q" "slice_stop (length s) k = q" "slice_stop (nrows V) k = q"
    and sq: "sqrtm (rows_upto (cols_upto (np_diag s) k) k) = Inr R" "nrows R = q" "ncols R = q"
  shows "\<exists>ans. svd linalg_svd sqrtm mat k = Inr ans \<and>
           nrows ans = nrows mat \<and> ncols ans = ncols mat \<and>
           (\<forall>i<nrows mat. \<forall>j<ncols mat.
              cell ans i j =
                add_float (\<Sum>a<q. (\<Sum>l<q. cell U i l * cell R l a) * (\<Sum>b<q. cell R a b * cell V b j))
                  (ma_mean_axis0 mat ! j))"
proof -
  let ?x = "tile_rows (ma_mean_axis0 mat) (nrows (filled mat (ma_mean_axis0 mat)))"
  define p :: "real ndarray" where
    "p = \<lparr>nrows = nrows mat, ncols = ncols mat,
          cell = \<lambda>i j. \<Sum>a<q. (\<Sum>l<q. cell U i l * cell R l a) * (\<Sum>b<q. cell R a b * cell V b j)\<rparr>"
  have "svd linalg_svd sqrtm mat k = np_binop add_float p ?x"
    using sq(1)
    by (simp add: svd_def Let_def centre_ok lib sq(2,3) np_dot_def cols_upto_def rows_upto_def q
        shapes p_def)
  moreover have "nrows p = nrows ?x" "ncols p = ncols ?x"
    by (simp_all add: p_def tile_rows_def filled_def ma_mean_length)
  from np_binop_same_shape [OF this, of add_float] obtain ans where
    "np_binop add_float p ?x = Inr ans" "nrows ans = nrows p" "ncols ans = ncols p"
    "\<forall>i<nrows p. \<forall>j<ncols p. cell ans i j = add_float (cell p i j) (cell ?x i j)"
    by blast
  ultimately show ?thesis by (simp add: p_def tile_rows_def)
qed

lemma rank_k_product_value:
  assumes q: "slice_stop (ncols U) k = q" "slice_stop (length s) k = q" "slice_stop (nrows V) k = q"
  shows "\<exists>P. rank_k_product U s V k = Inr P \<and> nrows P = nrows U \<and> ncols P = ncols V \<and>
           (\<forall>i j. cell P i j = (\<Sum>l<q. cell U i l * (if l < length s then s ! l else 0) * cell V l j))"
proof -
  have "(\<Sum>b<q. (\<Sum>a<q. cell U i a * (if a = b then s ! a else 0)) * cell V b j) =
        (\<Sum>l<q. cell U i l * s ! l * cell V l j)" for i j
    by (rule diag_product)
  moreover have "q \<le> length s" using q(2) by (auto simp: slice_stop_def split: if_splits)
  ultimately show ?thesis
    by (simp add: rank_k_product_def np_dot_def cols_upto_def rows_upto_def np_diag_def q)
qed

lemma example_mean: "ma_mean_axis0 example_ratings = [Some 2, Some 1]"
  by (simp add: ma_mean_axis0_def unmasked_def example_ratings_def upt_rec List.map_filter_def)

lemma example_centred_ok:
  "example_linalg_svd (centred example_ratings) = Inr (example_U, [4, 0], example_V)"
  by (simp add: example_linalg_svd_def)

lemma example_shapes:
  "nrows example_U = nrows example_ratings" "ncols example_V = ncols example_ratings"
  "ncols example_U = min (nrows example_ratings) (ncols example_ratings)"
  "length [4, 0 :: real] = min (nrows example_ratings) (ncols example_ratings)"
  "nrows example_V = min (nrows example_ratings) (ncols example_ratings)"
  by (simp_all add: example_U_def example_V_def example_ratings_def)

lemma example_factors:
  "i < nrows example_ratings \<Longrightarrow> j < ncols example_ratings \<Longrightarrow>
   cell (centred example_ratings) i j =
     Some (\<Sum>l<2. cell example_U i l * [4, 0] ! l * cell example_V l j)"
proof -
  assume i: "i < nrows example_ratings" and j: "j < ncols example_ratings"
  then have "i = 0 \<or> i = 1 \<or> i = 2 \<or> i = 3" "j = 0 \<or> j = 1"
    by (auto simp: example_ratings_def)
  moreover have "cell (centred example_ratings) i j =
      fsub (Some ([[4, 1], [4, 1], [0, 1], [0, 1]] ! i ! j)) ([Some 2, Some 1] ! j)"
    unfolding centred_cell [OF i j] example_mean by (simp add: example_ratings_def)
  ultimately show ?thesis
    by (auto simp: fsub_def example_U_def example_V_def lessThan_Suc eval_nat_numeral)
qed

lemma example_svd_cells:
  assumes "slice_stop 2 k = q"
  shows "\<exists>ans. svd example_linalg_svd example_sqrtm example_ratings k = Inr ans \<and>
           (\<forall>i<nrows example_ratings. \<forall>j<ncols example_ratings.
              cell ans i j =
                add_float
                  (\<Sum>a<q. (\<Sum>l<q. cell example_U i l * sqrt (if l = a then [4, 0] ! l else 0)) *
                          (\<Sum>b<q. sqrt (if a = b then [4, 0] ! a else 0) * cell example_V b j))
                  (ma_mean_axis0 example_ratings ! j))"
proof -
  define R where "R = rows_upto (cols_upto (np_diag [4, 0]) k) k
      \<lparr>cell := \<lambda>i j. sqrt (cell (rows_upto (cols_upto (np_diag [4, 0]) k) k) i j)\<rparr>"
  have sq: "example_sqrtm (rows_upto (cols_upto (np_diag [4, 0]) k) k) = Inr R"
    "nrows R = q" "ncols R = q"
    using assms
    by (simp_all add: example_sqrtm_def R_def rows_upto_def cols_upto_def np_diag_def
        numeral_2_eq_2)
  have q: "slice_stop (ncols example_U) k = q" "slice_stop (length [4, 0 :: real]) k = q"
    "slice_stop (nrows example_V) k = q"
    using assms by (simp_all add: example_U_def example_V_def numeral_2_eq_2)
  have R: "cell R i j = sqrt (if i = j then [4, 0] ! i else 0)" for i j
    by (simp add: R_def rows_upto_def cols_upto_def np_diag_def)
  from svd_value [where linalg_svd = example_linalg_svd and sqrtm = example_sqrtm,
      OF example_centred_ok example_shapes(1,2) q sq]
  show ?thesis unfolding R by blast
qed

text \<open>
  C1. Let \<open>M\<close> be an \<open>n \<times> m\<close> matrix without missing cells and \<open>1 \<le> k \<le> min n m\<close>. The
  matrix handed to the decomposition is \<open>M\<close> minus its column means. When the
  decomposition returns thin factors \<open>U\<close>, \<open>s\<close>, \<open>V\<close> for it and \<open>sqrtm\<close> returns a
  square root \<open>R\<close> of the truncated diagonal matrix of \<open>s\<close> (\<open>R\<close> times \<open>R\<close> is that
  matrix), then \<open>svd\<close> returns the product of the truncated factors plus the column mean
  of each column: the product through the two square roots is the product
  \<^verbatim>\<open>U[:, :k]\<close> \<^verbatim>\<open>S[:k, :k]\<close> \<^verbatim>\<open>V[:k, :]\<close>.
\<close>

theorem svd_rank_k_reconstruction:
  assumes dense: "\<forall>i<nrows M. \<forall>j<ncols M. cell M i j \<noteq> None"
    and k: "1 \<le> k" "k \<le> int (min (nrows M) (ncols M))"
    and lib: "linalg_svd (centred M) = Inr (U, s, V)"
    and thin: "nrows U = nrows M" "ncols U = min (nrows M) (ncols M)"
      "length s = min (nrows M) (ncols M)"
      "nrows V = min (nrows M) (ncols M)" "ncols V = ncols M"
    and sq: "sqrtm (rows_upto (cols_upto (np_diag s) k) k) = Inr R"
      "nrows R = nat k" "ncols R = nat k"
      "\<forall>i<nat k. \<forall>j<nat k. (\<Sum>l<nat k. cell R i l * cell R l j) = (if i = j then s ! i else 0)"
  shows "(\<forall>i<nrows M. \<forall>j<ncols M.
            cell (centred M) i j =
              Some (the (cell M i j) - (\<Sum>r<nrows M. the (cell M r j)) / real (nrows M))) \<and>
         (\<exists>P ans. rank_k_product U s V k = Inr P \<and> svd linalg_svd sqrtm M k = Inr ans \<and>
            nrows P = nrows M \<and> ncols P = ncols M \<and>
            nrows ans = nrows M \<and> ncols ans = ncols M \<and>
            (\<forall>i<nrows M. \<forall>j<ncols M.
               cell ans i j =
                 Some (cell P i j + (\<Sum>r<nrows M. the (cell M r j)) / real (nrows M))))"
proof -
  have mean: "ma_mean_axis0 M ! j = Some ((\<Sum>r<nrows M. the (cell M r j)) / real (nrows M))"
    if "j < ncols M" for j
  proof -
    from k have "0 < nrows M" by simp
    with dense that have "observed M j \<noteq> {}" by (auto simp: observed_def)
    moreover from dense that have "observed M j = {..<nrows M}" by (simp add: observed_dense)
    ultimately show ?thesis using that by (simp add: ma_mean_nth column_mean_def)
  qed
  have c: "cell (centred M) i j =
        Some (the (cell M i j) - (\<Sum>r<nrows M. the (cell M r j)) / real (nrows M))"
    if "i < nrows M" "j < ncols M" for i j
  proof -
    from dense that obtain v where "cell M i j = Some v" by blast
    with that mean [OF that(2)] show ?thesis by (simp add: centred_cell fsub_def)
  qed
  have q: "slice_stop (ncols U) k = nat k" "slice_stop (length s) k = nat k"
    "slice_stop (nrows V) k = nat k"
    using k thin by (simp_all add: slice_stop_def)
  from svd_value [where linalg_svd = linalg_svd and sqrtm = sqrtm, OF lib thin(1,5) q sq(1-3)]
  obtain ans where ans:
    "svd linalg_svd sqrtm M k = Inr ans" "nrows ans = nrows M" "ncols ans = ncols M"
    "\<forall>i<nrows M. \<forall>j<ncols M. cell ans i j =
       add_float (\<Sum>a<nat k. (\<Sum>l<nat k. cell U i l * cell R l a) * (\<Sum>b<nat k. cell R a b * cell V b j))
         (ma_mean_axis0 M ! j)"
    by blast
  from rank_k_product_value [OF q] obtain P where P:
    "rank_k_product U s V k = Inr P" "nrows P = nrows U" "ncols P = ncols V"
    "\<forall>i j. cell P i j = (\<Sum>l<nat k. cell U i l * (if l < length s then s ! l else 0) * cell V l j)"
    by blast
  have split: "(\<Sum>a<nat k. (\<Sum>l<nat k. cell U i l * cell R l a) * (\<Sum>b<nat k. cell R a b * cell V b j)) =
        cell P i j" for i j
  proof -
    have "nat k \<le> length s" using k thin(3) by linarith
    then have "(\<Sum>l<nat k. cell U i l * (if l < length s then s ! l else 0) * cell V l j) =
          (\<Sum>l<nat k. cell U i l * s ! l * cell V l j)"
      by (intro sum.cong refl) simp
    with sqrt_split [OF sq(4), of "\<lambda>l. cell U i l" "\<lambda>b. cell V b j"] P(4) show ?thesis by simp
  qed
  have "cell ans i j = Some (cell P i j + (\<Sum>r<nrows M. the (cell M r j)) / real (nrows M))"
    if "i < nrows M" "j < ncols M" for i j
    using ans(4) that mean [OF that(2)] by (simp add: split add_float_def)
  with c ans(1-3) P(1-3) thin show ?thesis by auto
qed

theorem svd_rank_k_reconstruction_witness:
  "(1::int) \<le> 1 \<and> 1 \<le> int (min (nrows example_ratings) (ncols example_ratings)) \<and>
   example_linalg_svd (centred example_ratings) = Inr (example_U, [4, 0], example_V) \<and>
   cell (projr (rank_k_product example_U [4, 0] example_V 1)) 0 0 = 2 \<and>
   cell (projr (svd example_linalg_svd example_sqrtm example_ratings 1)) 0 0 = Some 4 \<and>
   cell (centred example_ratings) 0 0 = Some 2"
proof -
  define R where "R = rows_upto (cols_upto (np_diag [4, 0]) 1) 1
      \<lparr>cell := \<lambda>i j. sqrt (cell (rows_upto (cols_upto (np_diag [4, 0]) 1) 1) i j)\<rparr>"
  have dense: "\<forall>i<nrows example_ratings. \<forall>j<ncols example_ratings. cell example_ratings i j \<noteq> None"
    by (simp add: example_ratings_def)
  have k: "(1::int) \<le> 1" "1 \<le> int (min (nrows example_ratings) (ncols example_ratings))"
    by (simp_all add: example_ratings_def)
  have sq: "example_sqrtm (rows_upto (cols_upto (np_diag [4, 0]) 1) 1) = Inr R"
    "nrows R = nat 1" "ncols R = nat 1"
    "\<forall>i<nat 1. \<forall>j<nat 1. (\<Sum>l<nat 1. cell R i l * cell R l j) = (if i = j then [4, 0] ! i else 0)"
    by (simp_all add: example_sqrtm_def R_def rows_upto_def cols_upto_def np_diag_def
        slice_stop_def)
  note inst = svd_rank_k_reconstruction [where linalg_svd = example_linalg_svd
      and sqrtm = example_sqrtm, OF dense k example_centred_ok example_shapes(1,3,4,5,2) sq]
  have in_range: "(0::nat) < nrows example_ratings" "(0::nat) < ncols example_ratings"
    by (simp_all add: example_ratings_def)
  have mean: "(\<Sum>r<nrows example_ratings. the (cell example_ratings r 0)) /
      real (nrows example_ratings) = 2"
    by (simp add: example_ratings_def lessThan_Suc eval_nat_numeral)
  have cell00: "the (cell example_ratings 0 0) = 4"
    by (simp add: example_ratings_def)
  have P: "cell (projr (rank_k_product example_U [4, 0] example_V 1)) 0 0 = 2"
    by (simp add: rank_k_product_def np_dot_def cols_upto_def rows_upto_def np_diag_def
        slice_stop_def example_U_def example_V_def)
  from inst in_range have "cell (centred example_ratings) 0 0 =
      Some (the (cell example_ratings 0 0) -
        (\<Sum>r<nrows example_ratings. the (cell example_ratings r 0)) / real (nrows example_ratings))"
    by blast
  then have c: "cell (centred example_ratings) 0 0 = Some 2"
    by (simp only: mean cell00) simp
  from inst in_range obtain P' ans where
    "rank_k_product example_U [4, 0] example_V 1 = Inr P'"
    "svd example_linalg_svd example_sqrtm example_ratings 1 = Inr ans"
    "cell ans 0 0 = Some (cell P' 0 0 +
        (\<Sum>r<nrows example_ratings. the (cell example_ratings r 0)) / real (nrows example_ratings))"
    by blast
  with P mean have "cell (projr (svd example_linalg_svd example_sqrtm example_ratings 1)) 0 0 = Some 4"
    by simp
  with k example_centred_ok P c show ?thesis by blast
qed

text \<open>
  C4, as stated, fails: on the example matrix, whose smaller extent is 2, the ranks 3
  and -1 are out of range, and \<open>svd\<close> returns a matrix for both. For the rank 3 it is
  the reconstruction from both components, with the ratings 4 and 1 in the cells (0, 0)
  and (2, 1).
\<close>

theorem svd_invalid_rank_counterexample:
  "\<not> (1 \<le> (3::int) \<and> 3 \<le> int (min (nrows example_ratings) (ncols example_ratings))) \<and>
   \<not> isl (svd example_linalg_svd example_sqrtm example_ratings 3) \<and>
   cell (projr (svd example_linalg_svd example_sqrtm example_ratings 3)) 0 0 = Some 4 \<and>
   cell (projr (svd example_linalg_svd example_sqrtm example_ratings 3)) 2 1 = Some 1 \<and>
   \<not> (1 \<le> (- 1::int)) \<and>
   \<not> isl (svd example_linalg_svd example_sqrtm example_ratings (- 1))"
proof -
  have "slice_stop 2 3 = 2" by (simp add: slice_stop_def)
  from example_svd_cells [OF this] obtain ans where ans:
    "svd example_linalg_svd example_sqrtm example_ratings 3 = Inr ans"
    "\<forall>i<nrows example_ratings. \<forall>j<ncols example_ratings. cell ans i j =
       add_float
         (\<Sum>a<2. (\<Sum>l<2. cell example_U i l * sqrt (if l = a then [4, 0] ! l else 0)) *
                 (\<Sum>b<2. sqrt (if a = b then [4, 0] ! a else 0) * cell example_V b j))
         (ma_mean_axis0 example_ratings ! j)"
    by blast
  have "slice_stop 2 (- 1) = 1" by (simp add: slice_stop_def)
  from example_svd_cells [OF this] obtain ans' where
    "svd example_linalg_svd example_sqrtm example_ratings (- 1) = Inr ans'"
    by blast
  then have neg: "\<not> isl (svd example_linalg_svd example_sqrtm example_ratings (- 1))"
    by simp
  have range: "\<not> (1 \<le> (3::int) \<and> 3 \<le> int (min (nrows example_ratings) (ncols example_ratings)))"
    by (simp add: example_ratings_def)
  have ok: "\<not> isl (svd example_linalg_svd example_sqrtm example_ratings 3)"
    by (simp add: ans(1))
  have "(0::nat) < nrows example_ratings" "(0::nat) < ncols example_ratings"
    "(2::nat) < nrows example_ratings" "(1::nat) < ncols example_ratings"
    by (simp_all add: example_ratings_def)
  with ans(2) have
    "cell ans 0 0 =
       add_float
         (\<Sum>a<2. (\<Sum>l<2. cell example_U 0 l * sqrt (if l = a then [4, 0] ! l else 0)) *
                 (\<Sum>b<2. sqrt (if a = b then [4, 0] ! a else 0) * cell example_V b 0))
         (ma_mean_axis0 example_ratings ! 0)"
    "cell ans 2 1 =
       add_float
         (\<Sum>a<2. (\<Sum>l<2. cell example_U 2 l * sqrt (if l = a then [4, 0] ! l else 0)) *
                 (\<Sum>b<2. sqrt (if a = b then [4, 0] ! a else 0) * cell example_V b 1))
         (ma_mean_axis0 example_ratings ! 1)"
    by blast+
  then have "cell (projr (svd example_linalg_svd example_sqrtm example_ratings 3)) 0 0 = Some 4"
    "cell (projr (svd example_linalg_svd example_sqrtm example_ratings 3)) 2 1 = Some 1"
    by (simp_all add: ans(1) example_mean add_float_def example_U_def example_V_def
        lessThan_Suc eval_nat_numeral)
  with range ok neg show ?thesis by simp
qed

text \<open>
  C4, amended. \<open>svd\<close> does not check the rank and has no rank error. For every integer
  \<open>k\<close> the slices \<^verbatim>\<open>0:k\<close> keep \<open>slice_stop (min n m) k\<close> components, and when the
  decomposition returns thin factors and \<open>sqrtm\<close> returns a square matrix of that
  extent, \<open>svd\<close> returns an \<open>n \<times> m\<close> matrix. For \<open>k\<close> above \<open>min n m\<close> all components
  are kept and the result is that for \<open>k = min n m\<close>.
\<close>

theorem svd_no_rank_check:
  assumes lib: "linalg_svd (centred M) = Inr (U, s, V)"
    and thin: "nrows U = nrows M" "ncols U = min (nrows M) (ncols M)"
      "length s = min (nrows M) (ncols M)"
      "nrows V = min (nrows M) (ncols M)" "ncols V = ncols M"
    and sq: "sqrtm (rows_upto (cols_upto (np_diag s) k) k) = Inr R"
      "nrows R = slice_stop (min (nrows M) (ncols M)) k"
      "ncols R = slice_stop (min (nrows M) (ncols M)) k"
  shows "(\<exists>ans. svd linalg_svd sqrtm M k = Inr ans \<and> nrows ans = nrows M \<and> ncols ans = ncols M) \<and>
         (int (min (nrows M) (ncols M)) < k \<longrightarrow>
            slice_stop (min (nrows M) (ncols M)) k = min (nrows M) (ncols M) \<and>
            svd linalg_svd sqrtm M k = svd linalg_svd sqrtm M (int (min (nrows M) (ncols M))))"
proof -
  let ?r = "min (nrows M) (ncols M)"
  have q: "slice_stop (ncols U) k = slice_stop ?r k" "slice_stop (length s) k = slice_stop ?r k"
    "slice_stop (nrows V) k = slice_stop ?r k"
    using thin by simp_all
  from svd_value [where linalg_svd = linalg_svd and sqrtm = sqrtm, OF lib thin(1,5) q sq]
  have "\<exists>ans. svd linalg_svd sqrtm M k = Inr ans \<and> nrows ans = nrows M \<and> ncols ans = ncols M"
    by blast
  moreover have "svd linalg_svd sqrtm M k = svd linalg_svd sqrtm M (int ?r)" if "int ?r < k"
  proof -
    from that have "slice_stop ?r k = slice_stop ?r (int ?r)" by (simp add: slice_stop_def)
    then show ?thesis
      using thin
      by (simp add: svd_def Let_def centre_ok lib cols_upto_def rows_upto_def np_diag_def
          cong: sum.case_cong)
  qed
  moreover have "slice_stop ?r k = ?r" if "int ?r < k"
    using that by (simp add: slice_stop_def)
  ultimately show ?thesis by blast
qed

theorem svd_no_rank_check_witness:
  "example_linalg_svd (centred example_ratings) = Inr (example_U, [4, 0], example_V) \<and>
   int (min (nrows example_ratings) (ncols example_ratings)) < 3 \<and>
   \<not> isl (svd example_linalg_svd example_sqrtm example_ratings 3) \<and>
   svd example_linalg_svd example_sqrtm example_ratings 3 =
     svd example_linalg_svd example_sqrtm example_ratings 2"
proof -
  define R where "R = rows_upto (cols_upto (np_diag [4, 0]) 3) 3
      \<lparr>cell := \<lambda>i j. sqrt (cell (rows_upto (cols_upto (np_diag [4, 0]) 3) 3) i j)\<rparr>"
  have sq: "example_sqrtm (rows_upto (cols_upto (np_diag [4, 0]) 3) 3) = Inr R"
    "nrows R = slice_stop (min (nrows example_ratings) (ncols example_ratings)) 3"
    "ncols R = slice_stop (min (nrows example_ratings) (ncols example_ratings)) 3"
    by (simp_all add: example_sqrtm_def R_def rows_upto_def cols_upto_def np_diag_def
        slice_stop_def example_ratings_def)
  have r: "int (min (nrows example_ratings) (ncols example_ratings)) = 2"
    by (simp add: example_ratings_def)
  have lt: "int (min (nrows example_ratings) (ncols example_ratings)) < 3"
    using r by simp
  note inst = svd_no_rank_check [where linalg_svd = example_linalg_svd and sqrtm = example_sqrtm,
      OF example_centred_ok example_shapes(1,3,4,5,2) sq]
  from inst obtain ans where "svd example_linalg_svd example_sqrtm example_ratings 3 = Inr ans"
    by blast
  then have ok: "\<not> isl (svd example_linalg_svd example_sqrtm example_ratings 3)" by simp
  from inst lt have "svd example_linalg_svd example_sqrtm example_ratings 3 =
      svd example_linalg_svd example_sqrtm example_ratings
        (int (min (nrows example_ratings) (ncols example_ratings)))"
    by blast
  then have "svd example_linalg_svd example_sqrtm example_ratings 3 =
      svd example_linalg_svd example_sqrtm example_ratings 2"
    by (simp only: r)
  with example_centred_ok lt ok show ?thesis by blast
qed

section \<open>Properties of the matrix builder\<close>

lemma enumerate_prefix:
  "j \<le> length xs \<Longrightarrow> distinct xs \<Longrightarrow>
   dom (fold (index_entry xs) [0..<j] Map.empty) = set (take j xs) \<and>
   (\<forall>i<j. fold (index_entry xs) [0..<j] Map.empty (xs ! i) = Some i)"
proof (induction j)
  case 0
  then show ?case by simp
next
  case (Suc j)
  then have j: "j < length xs" by simp
  then have "j \<le> length xs" by simp
  from Suc.IH [OF this Suc.prems(2)] have IH:
    "dom (fold (index_entry xs) [0..<j] Map.empty) = set (take j xs)"
    "\<forall>i<j. fold (index_entry xs) [0..<j] Map.empty (xs ! i) = Some i"
    by blast+
  have neq: "xs ! i \<noteq> xs ! j" if "i < j" for i
    using that j Suc.prems(2) by (simp add: nth_eq_iff_index_eq)
  have step: "fold (index_entry xs) [0..<Suc j] Map.empty =
      (fold (index_entry xs) [0..<j] Map.empty)(xs ! j \<mapsto> j)"
    by (simp add: index_entry_def)
  have "dom (fold (index_entry xs) [0..<Suc j] Map.empty) = set (take (Suc j) xs)"
    unfolding step using IH(1) j by (simp add: take_Suc_conv_app_nth)
  moreover have "\<forall>i<Suc j. fold (index_entry xs) [0..<Suc j] Map.empty (xs ! i) = Some i"
    unfolding step using IH(2) neq by (simp add: less_Suc_eq)
  ultimately show ?case by blast
qed

lemma enumerate_index_dom: "distinct xs \<Longrightarrow> dom (enumerate_index xs) = set xs"
  using enumerate_prefix [of "length xs" xs] by (simp add: enumerate_index_def)

lemma enumerate_index_nth:
  "distinct xs \<Longrightarrow> i < length xs \<Longrightarrow> enumerate_index xs (xs ! i) = Some i"
  using enumerate_prefix [of "length xs" xs] by (simp add: enumerate_index_def)

lemma enumerate_index_bij:
  assumes "distinct xs"
  shows "bij_betw (\<lambda>k. the (enumerate_index xs k)) (set xs) {..<length xs}"
proof (rule bij_betw_byWitness [where f' = "\<lambda>i. xs ! i"])
  show "\<forall>k\<in>set xs. xs ! the (enumerate_index xs k) = k"
    using assms by (auto simp: in_set_conv_nth enumerate_index_nth)
  show "\<forall>i\<in>{..<length xs}. the (enumerate_index xs (xs ! i)) = i"
    using assms by (simp add: enumerate_index_nth)
  show "(\<lambda>k. the (enumerate_index xs k)) ` set xs \<subseteq> {..<length xs}"
    using assms by (auto simp: in_set_conv_nth enumerate_index_nth)
  show "(!) xs ` {..<length xs} \<subseteq> set xs" by auto
qed

lemma enumerate_index_inj:
  assumes "distinct xs" and "a \<in> set xs" and "enumerate_index xs b = enumerate_index xs a"
  shows "b = a"
proof -
  from assms(2) obtain i where i: "i < length xs" "xs ! i = a" by (auto simp: in_set_conv_nth)
  with assms(1) have a: "enumerate_index xs a = Some i" by (auto simp: enumerate_index_nth)
  with assms(3) have "b \<in> dom (enumerate_index xs)" by auto
  with assms(1) obtain j where j: "j < length xs" "xs ! j = b"
    by (auto simp: enumerate_index_dom in_set_conv_nth)
  with assms(1) have "enumerate_index xs b = Some j" by (auto simp: enumerate_index_nth)
  with a assms(3) i j show ?thesis by simp
qed

lemma nan_columns_fold:
  "fold (\<lambda>item d. d(item \<mapsto> replicate n None)) items d0 it =
   (if it \<in> set items then Some (replicate n None) else d0 it)"
  by (induction items arbitrary: d0) auto

lemma nan_columns_lookup:
  "nan_columns items n it = (if it \<in> set items then Some (replicate n None) else None)"
  by (simp add: nan_columns_def nan_columns_fold)

lemma enumerate_index_Some:
  assumes "distinct xs" and "enumerate_index xs k = Some c"
  shows "c < length xs \<and> xs ! c = k"
proof -
  from assms have "k \<in> set xs" using enumerate_index_dom [OF assms(1)] by auto
  then obtain i where i: "i < length xs" "xs ! i = k" by (auto simp: in_set_conv_nth)
  with assms(1) have "enumerate_index xs k = Some i" by (auto simp: enumerate_index_nth)
  with assms(2) i show ?thesis by simp
qed

lemma writes_Cons:
  "writes ui ((u, it, v) # xs) r it' =
   (if ui u = Some r \<and> it = it' then v # writes ui xs r it' else writes ui xs r it')"
  by (simp add: writes_def)

lemma fill_cells_spec:
  assumes "\<forall>(u, it, v)\<in>set xs. it \<in> dom d \<and> (\<exists>r. ui u = Some r \<and> r < n)"
    and "\<forall>it col. d it = Some col \<longrightarrow> length col = n"
  shows "\<exists>d'. fill_cells ui xs d = Inr d' \<and> dom d' = dom d \<and>
           (\<forall>it col. d' it = Some col \<longrightarrow> length col = n) \<and>
           (\<forall>it r. it \<in> dom d \<longrightarrow> r < n \<longrightarrow>
              the (d' it) ! r =
                (if writes ui xs r it = [] then the (d it) ! r else last (writes ui xs r it)))"
  using assms
proof (induction xs arbitrary: d)
  case Nil
  then show ?case by (simp add: writes_def)
next
  case (Cons x xs)
  obtain u it v where x: "x = (u, it, v)" by (cases x)
  from Cons.prems(1) x obtain col r0 where col: "d it = Some col" and r0: "ui u = Some r0" "r0 < n"
    by auto
  from Cons.prems(2) col have len: "length col = n" by blast
  let ?d1 = "d(it \<mapsto> col[r0 := v])"
  have dom1: "dom ?d1 = dom d" using col by auto
  have p1: "\<forall>(u, it, v)\<in>set xs. it \<in> dom ?d1 \<and> (\<exists>r. ui u = Some r \<and> r < n)"
    using Cons.prems(1) unfolding dom1 by simp
  have p2: "\<forall>it' col'. ?d1 it' = Some col' \<longrightarrow> length col' = n"
    using Cons.prems(2) len by auto
  from Cons.IH [OF p1 p2] obtain d' where d':
    "fill_cells ui xs ?d1 = Inr d'" "dom d' = dom ?d1"
    "\<forall>it col. d' it = Some col \<longrightarrow> length col = n"
    "\<forall>it' r. it' \<in> dom ?d1 \<longrightarrow> r < n \<longrightarrow>
       the (d' it') ! r =
         (if writes ui xs r it' = [] then the (?d1 it') ! r else last (writes ui xs r it'))"
    by blast
  have run: "fill_cells ui (x # xs) d = Inr d'"
    using col r0 len d'(1) by (simp add: x)
  have val: "the (d' it') ! r =
      (if writes ui (x # xs) r it' = [] then the (d it') ! r else last (writes ui (x # xs) r it'))"
    if "it' \<in> dom d" "r < n" for it' r
  proof -
    from d'(4) that dom1 have eq: "the (d' it') ! r =
        (if writes ui xs r it' = [] then the (?d1 it') ! r else last (writes ui xs r it'))"
      by simp
    show ?thesis
    proof (cases "ui u = Some r \<and> it = it'")
      case True
      then have r: "ui u = Some r" and i: "it = it'" by blast+
      from r r0 have rr: "r0 = r" by simp
      have upd: "the (?d1 it') ! r = v"
        unfolding i [symmetric] rr using len that(2) by simp
      have "writes ui (x # xs) r it' = v # writes ui xs r it'"
        unfolding x using r i by (simp add: writes_Cons)
      with eq upd show ?thesis by simp
    next
      case False
      have same: "the (?d1 it') ! r = the (d it') ! r"
      proof (cases "it' = it")
        case True
        with False r0 have "r \<noteq> r0" by auto
        with True col show ?thesis by simp
      next
        case False
        then show ?thesis by simp
      qed
      have w: "writes ui (x # xs) r it' = writes ui xs r it'"
        unfolding x using False by (auto simp: writes_Cons)
      show ?thesis unfolding w by (simp only: eq same)
    qed
  qed
  have "dom d' = dom d" using d'(2) dom1 by simp
  with run d'(3) val show ?case by blast
qed

text \<open>
  C6. Whenever \<open>list_set\<close> lists the distinct users and the distinct items of the data,
  the matrix builder returns a frame and two index maps: the user index map is defined
  on exactly the users of the data and is a bijection from them onto the row numbers
  below the number of rows, the item index map likewise onto the column numbers, and
  every observation's user and item resolve to a row and a column within the matrix
  whose cell holds the value of the last observation of that user and item.
\<close>

theorem create_utility_matrix_cells:
  assumes users: "distinct (list_set (map fst data))"
      "set (list_set (map fst data)) = set (map fst data)"
    and items: "distinct (list_set (map (fst \<circ> snd) data))"
      "set (list_set (map (fst \<circ> snd) data)) = set (map (fst \<circ> snd) data)"
  shows "\<exists>X users_index items_index.
           create_utility_matrix list_set data = Inr (X, users_index, items_index) \<and>
           bij_betw (\<lambda>u. the (users_index u)) (set (map fst data)) {..<nrows (to_ndarray X)} \<and>
           dom users_index = set (map fst data) \<and>
           bij_betw (\<lambda>it. the (items_index it)) (set (map (fst \<circ> snd) data))
             {..<ncols (to_ndarray X)} \<and>
           dom items_index = set (map (fst \<circ> snd) data) \<and>
           (\<forall>(u, it, v)\<in>set data.
              \<exists>r c. users_index u = Some r \<and> items_index it = Some c \<and>
                r < nrows (to_ndarray X) \<and> c < ncols (to_ndarray X) \<and>
                cell (to_ndarray X) r c = last_value data u it)"
proof -
  let ?users = "list_set (map fst data)"
  let ?items = "list_set (map (fst \<circ> snd) data)"
  let ?ui = "enumerate_index ?users"
  let ?ii = "enumerate_index ?items"
  let ?n = "length ?users"
  let ?d0 = "nan_columns ?items ?n"
  have user_row: "\<exists>r. ?ui u = Some r \<and> r < ?n" if "(u, it, v) \<in> set data" for u it v
  proof -
    from that have "u \<in> set ?users" unfolding users(2) by force
    then obtain r where "r < ?n" "?users ! r = u" by (auto simp: in_set_conv_nth)
    with users(1) show ?thesis by (auto simp: enumerate_index_nth)
  qed
  have item_col: "it \<in> set ?items" if "(u, it, v) \<in> set data" for u it v
    using that unfolding items(2) by force
  have dom0: "dom ?d0 = set ?items"
    by (auto simp: nan_columns_lookup split: if_splits)
  have p1: "\<forall>(u, it, v)\<in>set data. it \<in> dom ?d0 \<and> (\<exists>r. ?ui u = Some r \<and> r < ?n)"
    unfolding dom0 using user_row item_col by blast
  have p2: "\<forall>it col. ?d0 it = Some col \<longrightarrow> length col = ?n"
    by (auto simp: nan_columns_lookup split: if_splits)
  from fill_cells_spec [OF p1 p2] obtain d where d:
    "fill_cells ?ui data ?d0 = Inr d" "dom d = dom ?d0"
    "\<forall>it r. it \<in> dom ?d0 \<longrightarrow> r < ?n \<longrightarrow>
       the (d it) ! r =
         (if writes ?ui data r it = [] then the (?d0 it) ! r else last (writes ?ui data r it))"
    by blast
  let ?X = "\<lparr>df_index = ?users, df_columns = ?items, df_series = d\<rparr>"
  have run: "create_utility_matrix list_set data = Inr (?X, ?ui, ?ii)"
    by (simp add: create_utility_matrix_def Let_def d(1))
  have shape: "nrows (to_ndarray ?X) = ?n" "ncols (to_ndarray ?X) = length ?items"
    by (simp_all add: to_ndarray_def)
  have b1: "bij_betw (\<lambda>u. the (?ui u)) (set (map fst data)) {..<nrows (to_ndarray ?X)}"
    using enumerate_index_bij [OF users(1)] unfolding shape users(2) .
  have b2: "bij_betw (\<lambda>it. the (?ii it)) (set (map (fst \<circ> snd) data)) {..<ncols (to_ndarray ?X)}"
    using enumerate_index_bij [OF items(1)] unfolding shape items(2) .
  have d1: "dom ?ui = set (map fst data)"
    using enumerate_index_dom [OF users(1)] unfolding users(2) .
  have d2: "dom ?ii = set (map (fst \<circ> snd) data)"
    using enumerate_index_dom [OF items(1)] unfolding items(2) .
  have cells: "\<exists>r c. ?ui u = Some r \<and> ?ii it = Some c \<and>
        r < nrows (to_ndarray ?X) \<and> c < ncols (to_ndarray ?X) \<and>
        cell (to_ndarray ?X) r c = last_value data u it"
    if obs: "(u, it, v) \<in> set data" for u it v
  proof -
    from user_row [OF obs] obtain r where r: "?ui u = Some r" "r < ?n" by blast
    from item_col [OF obs] obtain c where c: "c < length ?items" "?items ! c = it"
      by (auto simp: in_set_conv_nth)
    with items(1) have ic: "?ii it = Some c" by (auto simp: enumerate_index_nth)
    have u_in: "u \<in> set ?users" using obs unfolding users(2) by force
    have same: "(\<lambda>(u', it', v'). ?ui u' = Some r \<and> it' = it) x =
        (\<lambda>(u', it', v'). u' = u \<and> it' = it) x" for x :: "'a \<times> 'a \<times> float"
    proof -
      obtain u' it' v' where x: "x = (u', it', v')" by (cases x)
      have "?ui u' = Some r \<longleftrightarrow> u' = u"
        using enumerate_index_inj [OF users(1) u_in, of u'] r(1) by auto
      then show ?thesis by (simp add: x)
    qed
    then have "(\<lambda>(u', it', v'). ?ui u' = Some r \<and> it' = it) =
        (\<lambda>(u', it', v'::float). u' = u \<and> it' = it)"
      by (rule ext)
    then have w: "writes ?ui data r it =
        map (snd \<circ> snd) (filter (\<lambda>(u', it', v'). u' = u \<and> it' = it) data)"
      unfolding writes_def by (rule arg_cong)
    have ne: "filter (\<lambda>(u', it', v'). u' = u \<and> it' = it) data \<noteq> []"
      using obs by (auto simp: filter_empty_conv)
    have wne: "writes ?ui data r it \<noteq> []"
      unfolding w using ne by simp
    have "it \<in> dom ?d0" unfolding dom0 by (rule item_col [OF obs])
    with d(3) r(2) wne have "the (d it) ! r = last (writes ?ui data r it)"
      by simp
    also have "\<dots> = last_value data u it"
      unfolding w last_value_def using ne by (simp add: last_map)
    finally have "cell (to_ndarray ?X) r c = last_value data u it"
      using c(2) by (simp add: to_ndarray_def)
    with r ic c(1) show ?thesis unfolding shape by blast
  qed
  from run b1 b2 d1 d2 cells show ?thesis by blast
qed

theorem create_utility_matrix_cells_witness:
  "distinct (remdups (map fst example_observations)) \<and>
   set (remdups (map fst example_observations)) = set (map fst example_observations) \<and>
   (\<exists>X users_index items_index r c.
      create_utility_matrix remdups example_observations = Inr (X, users_index, items_index) \<and>
      users_index ''u1'' = Some r \<and> items_index ''a'' = Some c \<and>
      cell (to_ndarray X) r c = Some 4)"
proof -
  have "(''u1'', ''a'', Some 5) \<in> set example_observations"
    by (simp add: example_observations_def)
  moreover have "last_value example_observations ''u1'' ''a'' = Some 4"
    by (simp add: last_value_def example_observations_def)
  ultimately show ?thesis
    using create_utility_matrix_cells [of remdups example_observations]
    by (simp only: distinct_remdups set_remdups simp_thms) fastforce
qed

section \<open>Properties of the rating predictor\<close>

lemma np_mean_row: "np_mean (map (cell M u) [0..<ncols M]) = row_mean M u"
proof -
  have "sum_list (map the (map (cell M u) [0..<ncols M])) = (\<Sum>j<ncols M. the (cell M u j))"
    by (simp add: comp_def sum_list_distinct_conv_sum_set lessThan_atLeast0 atLeast_upt
        flip: interv_sum_list_conv_sum_set_nat)
  moreover have "None \<in> set (map (cell M u) [0..<ncols M]) \<longleftrightarrow> (\<exists>j<ncols M. cell M u j = None)"
    by (force simp: image_iff)
  ultimately show ?thesis by (simp add: np_mean_def row_mean_def)
qed

lemma map_err_all_ok:
  "\<forall>x\<in>set xs. f x = Inr (g x) \<Longrightarrow> map_err f xs = Inr (map g xs)"
  by (induction xs) simp_all

lemma predict_ok:
  assumes "users_ind (userId ar) = Some u" and "u < nrows out"
    and "\<forall>c. movie_arr (movieId ar) = Some c \<longrightarrow> c < ncols out"
  shows "predict out users_ind movie_arr ar = Inr (prediction_rule out users_ind movie_arr ar)"
  using assms by (simp add: predict_def prediction_rule_def np_mean_row split: option.splits)

text \<open>
  C3. For a held-out observation whose user has a row in the reconstructed matrix: when
  the item is in the item index map (with a column of the matrix) the predicted value
  is the cell of the matrix at the user's row and the item's column; when the item is
  absent from the item index map the predicted value is the mean of the user's row.
  Over a held-out sequence in which every user has a row, the predictions are these
  values, one per observation and in the order of the sequence.
\<close>

theorem rating_predictor:
  "users_ind (userId ar) = Some u \<Longrightarrow> u < nrows out \<Longrightarrow>
   (\<forall>c. movie_arr (movieId ar) = Some c \<and> c < ncols out \<longrightarrow>
      predict out users_ind movie_arr ar = Inr (cell out u c)) \<and>
   (movie_arr (movieId ar) = None \<longrightarrow>
      predict out users_ind movie_arr ar = Inr (row_mean out u)) \<and>
   ((\<forall>ar\<in>set test. \<exists>u. users_ind (userId ar) = Some u \<and> u < nrows out \<and>
        (\<forall>c. movie_arr (movieId ar) = Some c \<longrightarrow> c < ncols out)) \<longrightarrow>
      predictions out users_ind movie_arr test =
        Inr (map (prediction_rule out users_ind movie_arr) test))"
proof -
  assume u: "users_ind (userId ar) = Some u" "u < nrows out"
  have seen: "predict out users_ind movie_arr ar = Inr (cell out u c)"
    if "movie_arr (movieId ar) = Some c" "c < ncols out" for c
    using u that by (simp add: predict_def)
  have unseen: "predict out users_ind movie_arr ar = Inr (row_mean out u)"
    if "movie_arr (movieId ar) = None"
    using u that by (simp add: predict_def np_mean_row)
  have loop: "predictions out users_ind movie_arr test =
        Inr (map (prediction_rule out users_ind movie_arr) test)"
    if "\<forall>ar\<in>set test. \<exists>u. users_ind (userId ar) = Some u \<and> u < nrows out \<and>
        (\<forall>c. movie_arr (movieId ar) = Some c \<longrightarrow> c < ncols out)"
    unfolding predictions_def
  proof (rule map_err_all_ok, rule ballI)
    fix a assume "a \<in> set test"
    with that obtain v where "users_ind (userId a) = Some v" "v < nrows out"
      "\<forall>c. movie_arr (movieId a) = Some c \<longrightarrow> c < ncols out"
      by blast
    then show "predict out users_ind movie_arr a = Inr (prediction_rule out users_ind movie_arr a)"
      by (rule predict_ok)
  qed
  from seen unseen loop show ?thesis by blast
qed

theorem rating_predictor_witness:
  "[''5'' \<mapsto> 2 :: nat] ''5'' = Some 2 \<and> 2 < nrows example_ratings \<and>
   [''10'' \<mapsto> 1 :: nat] ''unseen_item'' = None \<and>
   predict example_ratings [''5'' \<mapsto> 2] [''10'' \<mapsto> 1]
     \<lparr>userId = ''5'', movieId = ''unseen_item'', rating = 3, timestamp = 0\<rparr> = Inr (Some (1 / 2)) \<and>
   predict example_ratings [''5'' \<mapsto> 2] [''10'' \<mapsto> 1]
     \<lparr>userId = ''5'', movieId = ''10'', rating = 3, timestamp = 0\<rparr> = Inr (Some 1)"
proof -
  have u: "[''5'' \<mapsto> 2 :: nat] (userId \<lparr>userId = ''5'', movieId = ''unseen_item'', rating = 3, timestamp = 0\<rparr>) = Some 2"
    "[''5'' \<mapsto> 2 :: nat] (userId \<lparr>userId = ''5'', movieId = ''10'', rating = 3, timestamp = 0\<rparr>) = Some 2"
    "2 < nrows example_ratings"
    by (simp_all add: example_ratings_def)
  have mean: "row_mean example_ratings 2 = Some (1 / 2)"
    by (simp add: row_mean_def example_ratings_def lessThan_Suc eval_nat_numeral)
  have "predict example_ratings [''5'' \<mapsto> 2] [''10'' \<mapsto> 1]
     \<lparr>userId = ''5'', movieId = ''unseen_item'', rating = 3, timestamp = 0\<rparr> =
       Inr (row_mean example_ratings 2)"
    using rating_predictor [where users_ind = "[''5'' \<mapsto> 2]" and movie_arr = "[''10'' \<mapsto> 1]"
        and ar = "\<lparr>userId = ''5'', movieId = ''unseen_item'', rating = 3, timestamp = 0\<rparr>"
        and out = example_ratings and u = 2] u
    by simp
  moreover have "predict example_ratings [''5'' \<mapsto> 2] [''10'' \<mapsto> 1]
     \<lparr>userId = ''5'', movieId = ''10'', rating = 3, timestamp = 0\<rparr> =
       Inr (cell example_ratings 2 1)"
    using rating_predictor [where users_ind = "[''5'' \<mapsto> 2]" and movie_arr = "[''10'' \<mapsto> 1]"
        and ar = "\<lparr>userId = ''5'', movieId = ''10'', rating = 3, timestamp = 0\<rparr>"
        and out = example_ratings and u = 2] u
    by (simp add: example_ratings_def)
  ultimately show ?thesis using mean u(3) by (simp add: example_ratings_def)
qed

end
